theory Spec2Isabelle
  imports Main "HOL-Library.Sublist"
begin

section \<open>The name heuristic of \<^verbatim>\<open>scripts/extract_cv.py\<close>\<close>

text \<open>
  The script reads the text of a PDF and guesses the candidate's name from it. The
  development embeds \<^verbatim>\<open>guess_candidate_name\<close>, \<^verbatim>\<open>extract_text\<close> and \<^verbatim>\<open>main\<close>.

  A Python \<^verbatim>\<open>str\<close> is a sequence of code points; here it is a \<open>string\<close>, a list of
  \<open>char\<close>, each \<open>char\<close> one code point. The classifications and case mappings of the
  Python runtime (\<^verbatim>\<open>str.isspace\<close>, \<^verbatim>\<open>str.isalpha\<close>, \<^verbatim>\<open>str.upper\<close>, \<^verbatim>\<open>str.lower\<close>, the
  line boundaries of \<^verbatim>\<open>str.splitlines\<close>) are written out for the ASCII code points
  \<open>0..127\<close>, where they agree with CPython 3. A \<open>char\<close> above 127 is carried through
  as an opaque code point: no classification holds of it and the case mappings leave
  it alone. The theorems below therefore speak about the script on ASCII text.
\<close>

subsection \<open>String primitives of the Python runtime\<close>

text \<open>\<^verbatim>\<open>str.isspace\<close> of one code point: tab, LF, VT, FF, CR, FS, GS, RS, US, space.\<close>

definition py_isspace :: "char \<Rightarrow> bool" where
  "py_isspace c \<longleftrightarrow>
     c \<in> set [CHR 0x09, CHR 0x0A, CHR 0x0B, CHR 0x0C, CHR 0x0D,
              CHR 0x1C, CHR 0x1D, CHR 0x1E, CHR 0x1F, CHR 0x20]"

text \<open>The line boundaries of \<^verbatim>\<open>str.splitlines\<close>: LF, VT, FF, CR, FS, GS, RS
  (US is whitespace but ends no line).\<close>

definition py_islinebreak :: "char \<Rightarrow> bool" where
  "py_islinebreak c \<longleftrightarrow>
     c \<in> set [CHR 0x0A, CHR 0x0B, CHR 0x0C, CHR 0x0D, CHR 0x1C, CHR 0x1D, CHR 0x1E]"

definition upper_letters :: string where
  "upper_letters = ''ABCDEFGHIJKLMNOPQRSTUVWXYZ''"

definition lower_letters :: string where
  "lower_letters = ''abcdefghijklmnopqrstuvwxyz''"

definition py_isalpha_char :: "char \<Rightarrow> bool" where
  "py_isalpha_char c \<longleftrightarrow> c \<in> set upper_letters \<or> c \<in> set lower_letters"

text \<open>\<^verbatim>\<open>s.isalpha()\<close>: every character is a letter and there is at least one.\<close>

definition py_isalpha :: "string \<Rightarrow> bool" where
  "py_isalpha s \<longleftrightarrow> s \<noteq> [] \<and> list_all py_isalpha_char s"

definition py_upper_char :: "char \<Rightarrow> char" where
  "py_upper_char c = (case map_of (zip lower_letters upper_letters) c of
                        Some d \<Rightarrow> d | None \<Rightarrow> c)"

definition py_lower_char :: "char \<Rightarrow> char" where
  "py_lower_char c = (case map_of (zip upper_letters lower_letters) c of
                        Some d \<Rightarrow> d | None \<Rightarrow> c)"

definition py_upper :: "string \<Rightarrow> string" where
  "py_upper s = map py_upper_char s"

definition py_lower :: "string \<Rightarrow> string" where
  "py_lower s = map py_lower_char s"

text \<open>\<^verbatim>\<open>s.strip()\<close>: whitespace removed at both ends.\<close>

definition py_strip :: "string \<Rightarrow> string" where
  "py_strip s = rev (dropWhile py_isspace (rev (dropWhile py_isspace s)))"

text \<open>\<^verbatim>\<open>s.split()\<close>: the maximal runs of characters that are not whitespace. The first
  argument is the run read so far.\<close>

fun py_split_acc :: "string \<Rightarrow> string \<Rightarrow> string list" where
  "py_split_acc cur [] = (if cur = [] then [] else [cur])"
| "py_split_acc cur (c # cs) =
     (if py_isspace c
      then (if cur = [] then py_split_acc [] cs else cur # py_split_acc [] cs)
      else py_split_acc (cur @ [c]) cs)"

definition py_split :: "string \<Rightarrow> string list" where
  "py_split s = py_split_acc [] s"

text \<open>\<^verbatim>\<open>s.splitlines()\<close>: the text is cut at every line boundary, CR LF counting as
  one; what follows the last boundary is a line only when it is not empty.\<close>

fun py_splitlines_acc :: "string \<Rightarrow> string \<Rightarrow> string list" where
  "py_splitlines_acc cur [] = (if cur = [] then [] else [cur])"
| "py_splitlines_acc cur [c] =
     (if py_islinebreak c then [cur] else [cur @ [c]])"
| "py_splitlines_acc cur (c # d # cs) =
     (if c = CHR 0x0D \<and> d = CHR 0x0A then cur # py_splitlines_acc [] cs
      else if py_islinebreak c then cur # py_splitlines_acc [] (d # cs)
      else py_splitlines_acc (cur @ [c]) (d # cs))"

definition py_splitlines :: "string \<Rightarrow> string list" where
  "py_splitlines s = py_splitlines_acc [] s"

text \<open>\<^verbatim>\<open>s.split(sep, 1)\<close> for a separator of one character: at most one cut, at the
  first occurrence.\<close>

definition py_split_once :: "char \<Rightarrow> string \<Rightarrow> string list" where
  "py_split_once sep s =
     (if sep \<in> set s
      then [takeWhile (\<lambda>c. c \<noteq> sep) s, tl (dropWhile (\<lambda>c. c \<noteq> sep) s)]
      else [s])"

text \<open>\<^verbatim>\<open>s.replace(a, b)\<close> for \<open>a\<close> of one character.\<close>

definition py_replace :: "char \<Rightarrow> string \<Rightarrow> string \<Rightarrow> string" where
  "py_replace a b s = concat (map (\<lambda>c. if c = a then b else [c]) s)"

text \<open>\<^verbatim>\<open>sub in s\<close>: \<open>sub\<close> occurs in \<open>s\<close> as a contiguous substring.\<close>

fun py_contains :: "string \<Rightarrow> string \<Rightarrow> bool" where
  "py_contains sub [] = (sub = [])"
| "py_contains sub (c # cs) = (prefix sub (c # cs) \<or> py_contains sub cs)"

text \<open>\<^verbatim>\<open>sep.join(xs)\<close>.\<close>

fun py_join :: "string \<Rightarrow> string list \<Rightarrow> string" where
  "py_join sep [] = []"
| "py_join sep [x] = x"
| "py_join sep (x # y # ys) = x @ sep @ py_join sep (y # ys)"

subsection \<open>\<^verbatim>\<open>guess_candidate_name\<close>\<close>

definition skip_keywords :: "string list" where
  "skip_keywords =
     [''location'', ''country'', ''phone'', ''email'', ''summary'', ''profile'',
      ''experience'', ''skills'', ''tech'', ''stack'', ''linkedin'', ''github'',
      ''contact'']"

text \<open>The list \<^verbatim>\<open>lines\<close>: the stripped lines that are not empty and at most 60 long.\<close>

definition candidate_lines :: "string \<Rightarrow> string list" where
  "candidate_lines text =
     [py_strip line. line \<leftarrow> py_splitlines text,
        py_strip line \<noteq> [] \<and> length (py_strip line) \<le> 60]"

text \<open>\<^verbatim>\<open>normalized = line.split(":", 1)[-1].strip() if ":" in line else line\<close>\<close>

definition normalized_of :: "string \<Rightarrow> string" where
  "normalized_of line =
     (if CHR '':'' \<in> set line
      then py_strip (last (py_split_once (CHR '':'') line))
      else line)"

text \<open>\<^verbatim>\<open>any(keyword in lower for keyword in skip_keywords)\<close>. The keywords are a Python
  set, which fixes no order of iteration: the order is the parameter \<open>ks\<close>.\<close>

definition blocked :: "string list \<Rightarrow> string \<Rightarrow> bool" where
  "blocked ks lower = list_ex (\<lambda>keyword. py_contains keyword lower) ks"

text \<open>\<^verbatim>\<open>token.replace("-", "").isalpha()\<close>\<close>

definition is_alpha_token :: "string \<Rightarrow> bool" where
  "is_alpha_token token = py_isalpha (py_replace (CHR ''-'') [] token)"

text \<open>\<^verbatim>\<open>[token for token in s.split() if token.replace("-", "").isalpha()]\<close>\<close>

definition alpha_tokens :: "string \<Rightarrow> string list" where
  "alpha_tokens s = filter is_alpha_token (py_split s)"

text \<open>\<^verbatim>\<open>token[:1].upper() + token[1:].lower()\<close>\<close>

definition capitalize :: "string \<Rightarrow> string" where
  "capitalize token = py_upper (take 1 token) @ py_lower (drop 1 token)"

text \<open>The loop over \<^verbatim>\<open>lines[:20]\<close>: \<open>Some\<close> is a \<^verbatim>\<open>return\<close> from inside the loop,
  \<open>None\<close> is the loop running to its end.\<close>

fun scan_lines :: "string list \<Rightarrow> string list \<Rightarrow> string option" where
  "scan_lines ks [] = None"
| "scan_lines ks (line # rest) =
     (let normalized = normalized_of line;
          lower = py_lower normalized
      in if blocked ks lower then scan_lines ks rest
         else (let tokens = alpha_tokens normalized
               in if length tokens \<ge> 2
                  then (if length tokens = 2
                        then Some (py_join '' '' (map capitalize tokens))
                        else Some (py_join '' '' (map capitalize (take 2 tokens))))
                  else scan_lines ks rest))"

text \<open>The code after the loop: the first two alphabetic words of the whole text.\<close>

definition fallback :: "string \<Rightarrow> string" where
  "fallback text =
     (let words = alpha_tokens (py_replace (CHR 0x0A) '' '' text)
      in if length words \<ge> 2
         then py_join '' '' (map (\<lambda>i. capitalize (words ! i)) [0 ..< 2])
         else [])"

definition guess_candidate_name_ord :: "string list \<Rightarrow> string \<Rightarrow> string" where
  "guess_candidate_name_ord ks text =
     (case scan_lines ks (take 20 (candidate_lines text)) of
        Some formatted \<Rightarrow> formatted
      | None \<Rightarrow> fallback text)"

definition guess_candidate_name :: "string \<Rightarrow> string" where
  "guess_candidate_name text = guess_candidate_name_ord skip_keywords text"

text \<open>A line makes the loop return when no keyword occurs in its normalized text and
  that text has at least two alphabetic tokens.\<close>

definition qualifies :: "string list \<Rightarrow> string \<Rightarrow> bool" where
  "qualifies ks line \<longleftrightarrow>
     \<not> blocked ks (py_lower (normalized_of line)) \<and>
     length (alpha_tokens (normalized_of line)) \<ge> 2"

text \<open>The first two alphabetic tokens of \<open>s\<close>, capitalized, with one space between.\<close>

definition format_name :: "string \<Rightarrow> string" where
  "format_name s = capitalize (alpha_tokens s ! 0) @ '' '' @ capitalize (alpha_tokens s ! 1)"

text \<open>A text of ASCII code points: there the tables above are those of CPython.\<close>

definition is_ascii :: "string \<Rightarrow> bool" where
  "is_ascii s \<longleftrightarrow> list_all (\<lambda>c. (of_char c :: nat) < 128) s"

text \<open>The specification's words for a capitalized token: the first character is an
  upper-case letter and no later character is one.\<close>

definition first_upper_rest_lower :: "string \<Rightarrow> bool" where
  "first_upper_rest_lower t \<longleftrightarrow>
     t \<noteq> [] \<and> hd t \<in> set upper_letters \<and> list_all (\<lambda>c. c \<notin> set upper_letters) (tl t)"

text \<open>What the code returns as a token: an upper-case letter or a hyphen first, then
  lower-case letters and hyphens, with at least one letter in all.\<close>

definition capitalized_token :: "string \<Rightarrow> bool" where
  "capitalized_token t \<longleftrightarrow>
     t \<noteq> [] \<and> (hd t \<in> set upper_letters \<or> hd t = CHR ''-'') \<and>
     list_all (\<lambda>c. c \<in> set lower_letters \<or> c = CHR ''-'') (tl t) \<and>
     list_ex (\<lambda>c. c \<noteq> CHR ''-'') t"

text \<open>The candidate-line sequence in the specification's words: of the lines of the
  text, those that are not empty once trimmed and whose trimmed length is at most 60,
  each trimmed, in their order.\<close>

definition candidate_line_sequence :: "string \<Rightarrow> string list" where
  "candidate_line_sequence text =
     map py_strip
       (filter (\<lambda>line. py_strip line \<noteq> [] \<and> length (py_strip line) \<le> 60)
          (py_splitlines text))"

subsection \<open>\<^verbatim>\<open>extract_text\<close> and \<^verbatim>\<open>main\<close>\<close>

text \<open>The PDF library is outside the script. A readable file is the list of what
  \<^verbatim>\<open>page.extract_text()\<close> gives for each page, \<open>None\<close> for Python's \<^verbatim>\<open>None\<close>; a file the
  library fails on is the message of the exception.\<close>

type_synonym pdf = "string + string option list"

text \<open>\<^verbatim>\<open>"\n".join(page.extract_text() or "" for each page).strip()\<close>\<close>

definition extract_text :: "string option list \<Rightarrow> string" where
  "extract_text pages =
     py_strip (py_join [CHR 0x0A] (map (\<lambda>extracted. case extracted of None \<Rightarrow> [] | Some s \<Rightarrow> s) pages))"

datatype error = Missing_Argument | File_Missing | Read_Failed string

text \<open>\<^verbatim>\<open>main\<close>: \<open>argv\<close> is \<^verbatim>\<open>sys.argv\<close>, \<open>fs\<close> the files that exist. \<open>Inl\<close> is an error record
  and exit status 1, \<open>Inr\<close> the payload that is written as JSON.\<close>

definition main :: "string list \<Rightarrow> (string \<rightharpoonup> pdf) \<Rightarrow> error + (string \<rightharpoonup> string)" where
  "main argv fs =
     (if length argv < 2 then Inl Missing_Argument
      else case fs (argv ! 1) of
             None \<Rightarrow> Inl File_Missing
           | Some (Inl exc) \<Rightarrow> Inl (Read_Failed exc)
           | Some (Inr pages) \<Rightarrow>
               (let text = extract_text pages;
                    payload = [''text'' \<mapsto> text];
                    candidate_name = guess_candidate_name text
                in if candidate_name \<noteq> []
                   then Inr (payload(''name'' \<mapsto> candidate_name))
                   else Inr payload))"

subsection \<open>Letters and case\<close>

lemma upper_letters_facts:
  "d \<in> set upper_letters \<Longrightarrow> \<not> py_isspace d \<and> d \<noteq> CHR ''-'' \<and> d \<notin> set lower_letters \<and> py_isalpha_char d"
  unfolding upper_letters_def lower_letters_def py_isspace_def py_isalpha_char_def by auto

lemma lower_letters_facts:
  "d \<in> set lower_letters \<Longrightarrow> \<not> py_isspace d \<and> d \<noteq> CHR ''-'' \<and> d \<notin> set upper_letters \<and> py_isalpha_char d"
  unfolding upper_letters_def lower_letters_def py_isspace_def py_isalpha_char_def by auto

lemma py_upper_char_cases:
  "py_upper_char c = c \<and> c \<notin> set lower_letters \<or> c \<in> set lower_letters \<and> py_upper_char c \<in> set upper_letters"
proof (cases "map_of (zip lower_letters upper_letters) c")
  case None
  have "length lower_letters = length upper_letters"
    by (simp add: lower_letters_def upper_letters_def)
  then have "fst ` set (zip lower_letters upper_letters) = set lower_letters"
    by (metis map_fst_zip set_map)
  with None have "c \<notin> set lower_letters"
    by (simp add: map_of_eq_None_iff)
  with None show ?thesis by (simp add: py_upper_char_def)
next
  case (Some d)
  then have "(c, d) \<in> set (zip lower_letters upper_letters)" by (rule map_of_SomeD)
  then have "c \<in> set lower_letters" "d \<in> set upper_letters"
    by (auto dest: set_zip_leftD set_zip_rightD)
  with Some show ?thesis by (simp add: py_upper_char_def)
qed

lemma py_lower_char_cases:
  "py_lower_char c = c \<and> c \<notin> set upper_letters \<or> c \<in> set upper_letters \<and> py_lower_char c \<in> set lower_letters"
proof (cases "map_of (zip upper_letters lower_letters) c")
  case None
  have "length lower_letters = length upper_letters"
    by (simp add: lower_letters_def upper_letters_def)
  then have "fst ` set (zip upper_letters lower_letters) = set upper_letters"
    by (metis map_fst_zip set_map)
  with None have "c \<notin> set upper_letters"
    by (simp add: map_of_eq_None_iff)
  with None show ?thesis by (simp add: py_lower_char_def)
next
  case (Some d)
  then have "(c, d) \<in> set (zip upper_letters lower_letters)" by (rule map_of_SomeD)
  then have "c \<in> set upper_letters" "d \<in> set lower_letters"
    by (auto dest: set_zip_leftD set_zip_rightD)
  with Some show ?thesis by (simp add: py_lower_char_def)
qed

lemma py_upper_char_isspace [simp]: "py_isspace (py_upper_char c) = py_isspace c"
  using py_upper_char_cases [of c] upper_letters_facts lower_letters_facts by metis

lemma py_lower_char_isspace [simp]: "py_isspace (py_lower_char c) = py_isspace c"
  using py_lower_char_cases [of c] upper_letters_facts lower_letters_facts by metis

lemma py_upper_char_hyphen [simp]: "py_upper_char c = CHR ''-'' \<longleftrightarrow> c = CHR ''-''"
  using py_upper_char_cases [of c] upper_letters_facts lower_letters_facts by metis

lemma py_lower_char_hyphen [simp]: "py_lower_char c = CHR ''-'' \<longleftrightarrow> c = CHR ''-''"
  using py_lower_char_cases [of c] upper_letters_facts lower_letters_facts by metis

lemma py_upper_char_idem [simp]: "py_upper_char (py_upper_char c) = py_upper_char c"
  using py_upper_char_cases [of c] py_upper_char_cases [of "py_upper_char c"] upper_letters_facts
  by metis

lemma py_lower_char_idem [simp]: "py_lower_char (py_lower_char c) = py_lower_char c"
  using py_lower_char_cases [of c] py_lower_char_cases [of "py_lower_char c"] lower_letters_facts
  by metis

lemma py_upper_char_isalpha [simp]: "py_isalpha_char (py_upper_char c) = py_isalpha_char c"
  using py_upper_char_cases [of c] upper_letters_facts lower_letters_facts by metis

lemma py_lower_char_isalpha [simp]: "py_isalpha_char (py_lower_char c) = py_isalpha_char c"
  using py_lower_char_cases [of c] upper_letters_facts lower_letters_facts by metis

lemma py_lower_char_not_upper: "py_lower_char c \<notin> set upper_letters"
  using py_lower_char_cases [of c] lower_letters_facts by metis

lemma py_upper_char_not_lower: "py_upper_char c \<notin> set lower_letters"
  using py_upper_char_cases [of c] upper_letters_facts by metis

subsection \<open>Splitting, capitalizing, scanning\<close>

lemma py_split_acc_tokens:
  "list_all (\<lambda>c. \<not> py_isspace c) cur \<Longrightarrow>
     list_all (\<lambda>t. t \<noteq> [] \<and> list_all (\<lambda>c. \<not> py_isspace c) t) (py_split_acc cur s)"
  by (induction cur s rule: py_split_acc.induct) simp_all

lemma py_split_tokens:
  assumes "t \<in> set (py_split s)"
  shows "t \<noteq> [] \<and> (\<forall>c\<in>set t. \<not> py_isspace c)"
proof -
  have "list_all (\<lambda>t. t \<noteq> [] \<and> list_all (\<lambda>c. \<not> py_isspace c) t) (py_split_acc [] s)"
    by (rule py_split_acc_tokens) simp
  with assms show ?thesis
    unfolding py_split_def list_all_iff by blast
qed

lemma py_split_acc_nospace:
  "\<forall>c\<in>set s. \<not> py_isspace c \<Longrightarrow>
     py_split_acc cur s = (if cur @ s = [] then [] else [cur @ s])"
  by (induction cur s rule: py_split_acc.induct) auto

lemma py_split_acc_append_space:
  "py_isspace w \<Longrightarrow>
     py_split_acc cur (u @ w # v) = py_split_acc cur u @ py_split_acc [] v"
  by (induction cur u rule: py_split_acc.induct) auto

lemma py_split_two:
  assumes "a \<noteq> []" "b \<noteq> []" "\<forall>c\<in>set a. \<not> py_isspace c" "\<forall>c\<in>set b. \<not> py_isspace c"
  shows "py_split (a @ '' '' @ b) = [a, b]"
proof -
  have sp: "py_isspace (CHR '' '')" by (simp add: py_isspace_def)
  have "py_split (a @ CHR '' '' # b) = py_split_acc [] a @ py_split_acc [] b"
    unfolding py_split_def by (rule py_split_acc_append_space [OF sp])
  with assms show ?thesis by (simp add: py_split_acc_nospace)
qed

lemma capitalize_empty [simp]: "capitalize [] = []"
  by (simp add: capitalize_def py_upper_def py_lower_def)

lemma capitalize_Nil [simp]: "capitalize t = [] \<longleftrightarrow> t = []"
  by (cases t) (simp_all add: capitalize_def py_upper_def py_lower_def)

lemma capitalize_Cons: "capitalize (c # cs) = py_upper_char c # map py_lower_char cs"
  by (simp add: capitalize_def py_upper_def py_lower_def)

lemma length_capitalize [simp]: "length (capitalize t) = length t"
  by (cases t) (simp_all add: capitalize_Cons)

lemma capitalize_nospace:
  "\<forall>c\<in>set t. \<not> py_isspace c \<Longrightarrow> \<forall>c\<in>set (capitalize t). \<not> py_isspace c"
  by (cases t) (auto simp: capitalize_Cons)

lemma capitalize_idem: "capitalize (capitalize t) = capitalize t"
  by (cases t) (simp_all add: capitalize_Cons)

lemma py_replace_hyphen: "py_replace (CHR ''-'') [] s = filter (\<lambda>c. c \<noteq> CHR ''-'') s"
  by (induction s) (simp_all add: py_replace_def)

lemma is_alpha_token_iff:
  "is_alpha_token t \<longleftrightarrow>
     (\<exists>c\<in>set t. c \<noteq> CHR ''-'') \<and> (\<forall>c\<in>set t. c = CHR ''-'' \<or> py_isalpha_char c)"
  by (auto simp: is_alpha_token_def py_isalpha_def py_replace_hyphen list_all_iff filter_empty_conv)

lemma is_alpha_token_capitalize: "is_alpha_token (capitalize t) = is_alpha_token t"
  by (cases t) (auto simp: capitalize_Cons is_alpha_token_iff)

lemma py_join_two: "py_join sep [a, b] = a @ sep @ b"
  by simp

lemma alpha_tokens_mem:
  "t \<in> set (alpha_tokens s) \<Longrightarrow> is_alpha_token t \<and> t \<noteq> [] \<and> (\<forall>c\<in>set t. \<not> py_isspace c)"
  using py_split_tokens [of t s] by (auto simp: alpha_tokens_def)

lemma map_capitalize_take2:
  assumes "length ts \<ge> 2"
  shows "py_join '' '' (map capitalize (take 2 ts)) =
           capitalize (ts ! 0) @ '' '' @ capitalize (ts ! 1)"
proof -
  from assms obtain a ts' where ts: "ts = a # ts'" by (cases ts) auto
  with assms obtain b rest where ts': "ts' = b # rest" by (cases ts') auto
  show ?thesis by (simp add: ts ts' numeral_2_eq_2)
qed

lemma scan_lines_Cons:
  "scan_lines ks (line # rest) =
     (if qualifies ks line then Some (format_name (normalized_of line)) else scan_lines ks rest)"
proof (cases "qualifies ks line")
  case True
  then have len: "length (alpha_tokens (normalized_of line)) \<ge> 2"
    and nb: "\<not> blocked ks (py_lower (normalized_of line))"
    by (simp_all add: qualifies_def)
  have two: "py_join '' '' (map capitalize (take 2 (alpha_tokens (normalized_of line)))) =
      format_name (normalized_of line)"
    unfolding format_name_def by (rule map_capitalize_take2 [OF len])
  have "length (alpha_tokens (normalized_of line)) = 2 \<Longrightarrow>
        take 2 (alpha_tokens (normalized_of line)) = alpha_tokens (normalized_of line)"
    by simp
  then have all: "length (alpha_tokens (normalized_of line)) = 2 \<Longrightarrow>
      py_join '' '' (map capitalize (alpha_tokens (normalized_of line))) =
      format_name (normalized_of line)"
    using two by metis
  have "scan_lines ks (line # rest) =
      (if length (alpha_tokens (normalized_of line)) = 2
       then Some (py_join '' '' (map capitalize (alpha_tokens (normalized_of line))))
       else Some (py_join '' '' (map capitalize (take 2 (alpha_tokens (normalized_of line))))))"
    using len nb by (simp add: Let_def)
  also have "\<dots> = Some (format_name (normalized_of line))"
    using two all by (cases "length (alpha_tokens (normalized_of line)) = 2") simp_all
  finally show ?thesis using True by simp
next
  case False
  then show ?thesis by (auto simp: qualifies_def Let_def)
qed

lemma fallback_eq:
  "fallback text =
     (if length (alpha_tokens (py_replace (CHR 0x0A) '' '' text)) \<ge> 2
      then format_name (py_replace (CHR 0x0A) '' '' text) else [])"
  by (simp add: fallback_def Let_def format_name_def numeral_2_eq_2 upt_rec)

lemma scan_lines_None:
  "scan_lines ks ls = None \<longleftrightarrow> list_all (\<lambda>l. \<not> qualifies ks l) ls"
  by (induction ls) (simp_all add: scan_lines_Cons del: scan_lines.simps(2))


lemma scan_lines_Some:
  "scan_lines ks ls = Some r \<Longrightarrow>
     \<exists>line. qualifies ks line \<and> r = format_name (normalized_of line)"
  by (induction ls) (auto simp: scan_lines_Cons simp del: scan_lines.simps(2) split: if_splits)

lemma py_upper_char_alpha: "py_isalpha_char c \<Longrightarrow> py_upper_char c \<in> set upper_letters"
  using py_upper_char_cases [of c] by (auto simp: py_isalpha_char_def)

lemma py_lower_char_alpha: "py_isalpha_char c \<Longrightarrow> py_lower_char c \<in> set lower_letters"
  using py_lower_char_cases [of c] by (auto simp: py_isalpha_char_def)

lemma capitalized_token_capitalize:
  assumes "is_alpha_token t"
  shows "capitalized_token (capitalize t)"
proof -
  from assms have ne: "\<exists>c\<in>set t. c \<noteq> CHR ''-''"
    and al: "\<forall>c\<in>set t. c = CHR ''-'' \<or> py_isalpha_char c"
    by (simp_all add: is_alpha_token_iff)
  from ne obtain c cs where t: "t = c # cs" by (cases t) auto
  have hd: "py_upper_char c \<in> set upper_letters \<or> py_upper_char c = CHR ''-''"
    using al t py_upper_char_alpha [of c] by auto
  have tl: "list_all (\<lambda>c. c \<in> set lower_letters \<or> c = CHR ''-'') (map py_lower_char cs)"
    using al t py_lower_char_alpha by (auto simp: list_all_iff)
  have "is_alpha_token (capitalize t)"
    using assms by (simp add: is_alpha_token_capitalize)
  then have ex: "list_ex (\<lambda>c. c \<noteq> CHR ''-'') (capitalize t)"
    by (simp add: is_alpha_token_iff list_ex_iff)
  show ?thesis
    unfolding capitalized_token_def using hd tl ex by (simp add: t capitalize_Cons)
qed

lemma format_name_shape:
  assumes "length (alpha_tokens s) \<ge> 2"
  shows "\<exists>a b. format_name s = a @ '' '' @ b \<and> py_split (format_name s) = [a, b] \<and>
           capitalized_token a \<and> capitalized_token b"
proof -
  let ?t0 = "alpha_tokens s ! 0" and ?t1 = "alpha_tokens s ! 1"
  from assms have l0: "0 < length (alpha_tokens s)" and l1: "1 < length (alpha_tokens s)"
    by linarith+
  have "?t0 \<in> set (alpha_tokens s)" "?t1 \<in> set (alpha_tokens s)"
    using nth_mem [OF l0] nth_mem [OF l1] by blast+
  then have t0: "is_alpha_token ?t0" "?t0 \<noteq> []" "\<forall>c\<in>set ?t0. \<not> py_isspace c"
    and t1: "is_alpha_token ?t1" "?t1 \<noteq> []" "\<forall>c\<in>set ?t1. \<not> py_isspace c"
    using alpha_tokens_mem by blast+
  have "py_split (capitalize ?t0 @ '' '' @ capitalize ?t1) = [capitalize ?t0, capitalize ?t1]"
    using t0 t1 by (intro py_split_two capitalize_nospace) simp_all
  then show ?thesis
    using t0 t1 unfolding format_name_def
    by (intro exI [of _ "capitalize ?t0"] exI [of _ "capitalize ?t1"])
       (simp add: capitalized_token_capitalize)
qed

lemma guess_ord_cases:
  "guess_candidate_name_ord ks text =
     (case scan_lines ks (take 20 (candidate_lines text)) of
        Some r \<Rightarrow> r
      | None \<Rightarrow> if length (alpha_tokens (py_replace (CHR 0x0A) '' '' text)) \<ge> 2
                then format_name (py_replace (CHR 0x0A) '' '' text) else [])"
  by (simp add: guess_candidate_name_ord_def fallback_eq split: option.splits)

subsection \<open>The shape of the result\<close>

text \<open>
  Claim C1, as the code has it. \<^verbatim>\<open>guess_candidate_name\<close> is a total function (every loop
  of the source runs over a finite list, and the embedding is by structural recursion).
  For every ASCII text its result is the empty string or two tokens with one space
  between them: splitting the result at whitespace gives exactly these two tokens,
  whatever the number of alphabetic tokens in the line or in the text. Each token
  starts with an upper-case letter or a hyphen and goes on with lower-case letters and
  hyphens, and has at least one letter.
\<close>

theorem guess_candidate_name_shape:
  assumes "is_ascii text"
  shows "guess_candidate_name text = [] \<or>
   (\<exists>a b. guess_candidate_name text = a @ '' '' @ b \<and>
      py_split (guess_candidate_name text) = [a, b] \<and>
      capitalized_token a \<and> capitalized_token b)"
proof (cases "scan_lines skip_keywords (take 20 (candidate_lines text))")
  case None
  then show ?thesis
    using format_name_shape [of "py_replace (CHR 0x0A) '' '' text"]
    by (simp add: guess_candidate_name_def guess_ord_cases)
next
  case (Some r)
  then obtain line where "qualifies skip_keywords line" "r = format_name (normalized_of line)"
    using scan_lines_Some by blast
  then show ?thesis
    using Some format_name_shape [of "normalized_of line"]
    by (simp add: guess_candidate_name_def guess_ord_cases qualifies_def)
qed

theorem guess_candidate_name_shape_witness:
  "guess_candidate_name ''dr JANE-anne mcDOE phd'' = ''Dr Jane-anne'' \<and>
   (\<exists>a b. guess_candidate_name ''dr JANE-anne mcDOE phd'' = a @ '' '' @ b \<and>
      py_split (guess_candidate_name ''dr JANE-anne mcDOE phd'') = [a, b] \<and>
      capitalized_token a \<and> capitalized_token b)"
proof -
  have a: "is_ascii ''dr JANE-anne mcDOE phd''" by code_simp
  have v: "guess_candidate_name ''dr JANE-anne mcDOE phd'' = ''Dr Jane-anne''"
    by code_simp
  then have "guess_candidate_name ''dr JANE-anne mcDOE phd'' \<noteq> []" by simp
  with guess_candidate_name_shape [OF a] v show ?thesis
    by blast
qed

text \<open>The claim as it is written fails: a token may start with a hyphen, which the
  code keeps in front.\<close>

theorem guess_candidate_name_shape_counterexample:
  "is_ascii ''-john smith'' \<and>
   guess_candidate_name ''-john smith'' = ''-john Smith'' \<and>
   py_split (guess_candidate_name ''-john smith'') = [''-john'', ''Smith''] \<and>
   \<not> list_all first_upper_rest_lower (py_split (guess_candidate_name ''-john smith''))"
  by code_simp


lemma guess_of_scan_None:
  "scan_lines skip_keywords (take 20 (candidate_lines text)) = None \<Longrightarrow>
     guess_candidate_name text = fallback text"
  by (simp add: guess_candidate_name_def guess_candidate_name_ord_def)





lemma blocked_set: "set ks1 = set ks2 \<Longrightarrow> blocked ks1 l = blocked ks2 l"
  by (simp add: blocked_def list_ex_iff)

lemma scan_lines_set: "set ks1 = set ks2 \<Longrightarrow> scan_lines ks1 ls = scan_lines ks2 ls"
  by (induction ls)
     (simp_all add: scan_lines_Cons qualifies_def blocked_set [of ks1 ks2] del: scan_lines.simps(2))

text \<open>
  Claim C7. The result depends on the text only. The function reads no state; the one
  thing Python leaves open is the order in which the keyword set is iterated, and the
  result is the same for every order: two evaluations on the same text agree.
\<close>

theorem guess_candidate_name_deterministic:
  "set ks1 = set skip_keywords \<Longrightarrow> set ks2 = set skip_keywords \<Longrightarrow>
     guess_candidate_name_ord ks1 text = guess_candidate_name_ord ks2 text \<and>
     guess_candidate_name_ord ks1 text = guess_candidate_name text"
  using scan_lines_set [of ks1 skip_keywords] scan_lines_set [of ks2 skip_keywords]
  by (simp add: guess_candidate_name_ord_def guess_candidate_name_def)

theorem guess_candidate_name_deterministic_witness:
  "guess_candidate_name_ord (rev skip_keywords) ''Email me\<newline>john smith'' =
     guess_candidate_name_ord (rotate 5 skip_keywords) ''Email me\<newline>john smith'' \<and>
   guess_candidate_name_ord (rev skip_keywords) ''Email me\<newline>john smith'' = ''John Smith''"
proof -
  have a: "set (rev skip_keywords) = set skip_keywords" by simp
  have b: "set (rotate 5 skip_keywords) = set skip_keywords" by simp
  have v: "guess_candidate_name ''Email me\<newline>john smith'' = ''John Smith''" by code_simp
  from guess_candidate_name_deterministic [OF a b, of "''Email me\<newline>john smith''"] v
  show ?thesis by metis
qed


text \<open>
  Claim C8. When \<^verbatim>\<open>main\<close> gets a path to a file the library can read, it succeeds and the
  payload maps \<^verbatim>\<open>text\<close> to the extracted text; it has the key \<^verbatim>\<open>name\<close> exactly when the
  guess is not empty, and then maps it to the guess. There is no other key.
\<close>

theorem main_payload:
  assumes "length argv \<ge> 2" and "fs (argv ! 1) = Some (Inr pages)"
  shows "\<exists>payload. main argv fs = Inr payload \<and>
           payload ''text'' = Some (extract_text pages) \<and>
           (''name'' \<in> dom payload \<longleftrightarrow> guess_candidate_name (extract_text pages) \<noteq> []) \<and>
           (\<forall>n. payload ''name'' = Some n \<longrightarrow> n = guess_candidate_name (extract_text pages)) \<and>
           dom payload \<subseteq> {''text'', ''name''}"
  using assms by (auto simp: main_def Let_def)

theorem main_payload_witness:
  "\<exists>payload.
     main [''extract_cv.py'', ''cv.pdf''] [''cv.pdf'' \<mapsto> Inr [Some ''Jane Doe'', None, Some ''page 3'']]
       = Inr payload \<and>
     payload ''text'' = Some ''Jane Doe\<newline>\<newline>page 3'' \<and>
     payload ''name'' = Some ''Jane Doe''"
proof -
  let ?pages = "[Some ''Jane Doe'', None, Some ''page 3'']"
  let ?fs = "[''cv.pdf'' \<mapsto> Inr ?pages] :: string \<rightharpoonup> pdf"
  have l: "length [''extract_cv.py'', ''cv.pdf''] \<ge> 2" by simp
  have f: "?fs ([''extract_cv.py'', ''cv.pdf''] ! 1) = Some (Inr ?pages)" by simp
  have t: "extract_text ?pages = ''Jane Doe\<newline>\<newline>page 3''" by code_simp
  have g: "guess_candidate_name ''Jane Doe\<newline>\<newline>page 3'' = ''Jane Doe''" by code_simp
  from main_payload [of "[''extract_cv.py'', ''cv.pdf'']" ?fs ?pages] l f obtain payload where
    p: "main [''extract_cv.py'', ''cv.pdf''] ?fs = Inr payload"
      "payload ''text'' = Some (extract_text ?pages)"
      "''name'' \<in> dom payload \<longleftrightarrow> guess_candidate_name (extract_text ?pages) \<noteq> []"
      "\<forall>n. payload ''name'' = Some n \<longrightarrow> n = guess_candidate_name (extract_text ?pages)"
    by blast
  from p(3) t g have "''name'' \<in> dom payload" by simp
  then obtain n where n: "payload ''name'' = Some n" by blast
  with p(4) t g have "n = ''Jane Doe''" by simp
  with p(1,2) n t show ?thesis by auto
qed





lemma normalized_of_colon:
  assumes "CHR '':'' \<notin> set label"
  shows "normalized_of (label @ CHR '':'' # rest) = py_strip rest"
proof -
  have "dropWhile (\<lambda>c. c \<noteq> CHR '':'') (label @ CHR '':'' # rest) = CHR '':'' # rest"
    using assms by (induction label) auto
  then show ?thesis
    by (simp add: normalized_of_def py_split_once_def)
qed



text \<open>
  Claim C5, as the code has it. On the text
  \<^verbatim>\<open>Contact: jane@example.com\<close> / \<^verbatim>\<open>John Smith\<close> / \<^verbatim>\<open>Skills: Python\<close> the result is
  \<^verbatim>\<open>John Smith\<close>. The first line is not rejected by the keyword check: the check reads
  the text after the colon, \<^verbatim>\<open>jane@example.com\<close>, in which no keyword occurs. The line
  is passed over because that text has no alphabetic token. A keyword in the label
  rejects nothing: the line \<^verbatim>\<open>Contact: John Smith\<close> alone gives \<^verbatim>\<open>John Smith\<close>.
\<close>

theorem contact_example:
  "guess_candidate_name ''Contact: jane@example.com\<newline>John Smith\<newline>Skills: Python'' = ''John Smith'' \<and>
   candidate_lines ''Contact: jane@example.com\<newline>John Smith\<newline>Skills: Python'' =
     [''Contact: jane@example.com'', ''John Smith'', ''Skills: Python''] \<and>
   normalized_of ''Contact: jane@example.com'' = ''jane@example.com'' \<and>
   \<not> blocked skip_keywords (py_lower (normalized_of ''Contact: jane@example.com'')) \<and>
   alpha_tokens (normalized_of ''Contact: jane@example.com'') = [] \<and>
   guess_candidate_name ''Contact: John Smith'' = ''John Smith''"
  by code_simp

text \<open>The claim as it is written fails: the first line of the example passes the
  keyword check.\<close>

theorem contact_example_counterexample:
  "\<not> (guess_candidate_name ''Contact: jane@example.com\<newline>John Smith\<newline>Skills: Python'' = ''John Smith'' \<and>
      blocked skip_keywords (py_lower (normalized_of ''Contact: jane@example.com'')))"
  by code_simp

lemma candidate_lines_eq: "candidate_lines text = candidate_line_sequence text"
proof -
  have "concat (map (\<lambda>x. if P x then [f x] else []) xs) = map f (filter P xs)"
    for P :: "string \<Rightarrow> bool" and f :: "string \<Rightarrow> string" and xs
    by (induction xs) simp_all
  then show ?thesis
    by (simp add: candidate_lines_def candidate_line_sequence_def)
qed

lemma candidate_lines_bounds:
  "list_all (\<lambda>l. l \<noteq> [] \<and> length l \<le> 60) (candidate_lines text)"
  by (simp add: candidate_lines_eq candidate_line_sequence_def list_all_iff)

lemma py_strip_decomp:
  "\<exists>ws1 ws2. s = ws1 @ py_strip s @ ws2 \<and> list_all py_isspace ws1 \<and> list_all py_isspace ws2"
proof -
  let ?d = "dropWhile py_isspace s"
  have 1: "s = takeWhile py_isspace s @ ?d" by simp
  have 2: "?d = py_strip s @ rev (takeWhile py_isspace (rev ?d))"
    unfolding py_strip_def by (metis rev_append rev_rev_ident takeWhile_dropWhile_id)
  have 3: "list_all py_isspace (takeWhile py_isspace s)"
    by (auto simp: list_all_iff dest: set_takeWhileD)
  have 4: "list_all py_isspace (rev (takeWhile py_isspace (rev ?d)))"
    by (auto simp: list_all_iff dest: set_takeWhileD)
  from 1 2 have "s = takeWhile py_isspace s @ py_strip s @ rev (takeWhile py_isspace (rev ?d))"
    by metis
  with 3 4 show ?thesis by blast
qed

lemma py_strip_ends:
  assumes "py_strip s \<noteq> []"
  shows "\<not> py_isspace (hd (py_strip s)) \<and> \<not> py_isspace (last (py_strip s))"
proof -
  let ?d = "dropWhile py_isspace s"
  let ?xs = "dropWhile py_isspace (rev ?d)"
  from assms have xs: "?xs \<noteq> []" by (simp add: py_strip_def)
  have d: "?d \<noteq> []"
  proof
    assume "?d = []"
    then have "?xs = []" by (simp only: rev.simps dropWhile.simps)
    with xs show False by contradiction
  qed
  have "last (py_strip s) = hd ?xs"
    using xs by (simp add: py_strip_def last_rev)
  moreover have "\<not> py_isspace (hd ?xs)" using xs by (rule hd_dropWhile)
  moreover have "rev ?d = takeWhile py_isspace (rev ?d) @ ?xs" by simp
  then have "last (rev ?d) = last ?xs" using xs by (metis last_appendR)
  then have "hd (py_strip s) = hd ?d"
    using xs d by (simp add: py_strip_def hd_rev last_rev)
  moreover have "\<not> py_isspace (hd ?d)" using d by (rule hd_dropWhile)
  ultimately show ?thesis by simp
qed

lemma candidate_lines_trimmed:
  assumes "cl \<in> set (candidate_lines text)"
  shows "cl \<noteq> [] \<and> length cl \<le> 60 \<and> \<not> py_isspace (hd cl) \<and> \<not> py_isspace (last cl) \<and>
         (\<exists>line\<in>set (py_splitlines text). \<exists>ws1 ws2. line = ws1 @ cl @ ws2 \<and>
             list_all py_isspace ws1 \<and> list_all py_isspace ws2)"
proof -
  from assms obtain l where l: "l \<in> set (py_splitlines text)" "cl = py_strip l"
    "py_strip l \<noteq> []" "length (py_strip l) \<le> 60"
    by (auto simp: candidate_lines_eq candidate_line_sequence_def)
  then show ?thesis
    using py_strip_ends [of l] py_strip_decomp [of l] by auto
qed


text \<open>
  Claim C6. The list the loop runs over is the candidate-line sequence of the
  specification, in the order of the text. Each entry is a line of the text with the
  whitespace at both ends removed: it is not empty, begins and ends with a character
  that is not whitespace, and is at most 60 long, the length being that of the trimmed
  line. The loop sees the first 20 entries only: with 20 candidate lines \<open>pre\<close> in
  front, the result is what the scan of \<open>pre\<close> returns, and the fallback when none of
  them qualifies, whatever the lines \<open>later\<close> are.
\<close>

theorem candidate_lines_window:
  "candidate_lines text = candidate_line_sequence text \<and>
   (\<forall>cl\<in>set (candidate_lines text).
      cl \<noteq> [] \<and> length cl \<le> 60 \<and> \<not> py_isspace (hd cl) \<and> \<not> py_isspace (last cl) \<and>
      (\<exists>line\<in>set (py_splitlines text). \<exists>ws1 ws2. line = ws1 @ cl @ ws2 \<and>
          list_all py_isspace ws1 \<and> list_all py_isspace ws2)) \<and>
   (candidate_lines text = pre @ later \<and> length pre = 20 \<longrightarrow>
      guess_candidate_name text =
        (case scan_lines skip_keywords pre of Some r \<Rightarrow> r | None \<Rightarrow> fallback text)) \<and>
   (candidate_lines text = pre @ later \<and> length pre = 20 \<and>
      list_all (\<lambda>l. \<not> qualifies skip_keywords l) pre \<longrightarrow>
      guess_candidate_name text = fallback text)"
proof -
  have 1: "candidate_lines text = candidate_line_sequence text"
    by (rule candidate_lines_eq)
  have 2: "\<forall>cl\<in>set (candidate_lines text).
      cl \<noteq> [] \<and> length cl \<le> 60 \<and> \<not> py_isspace (hd cl) \<and> \<not> py_isspace (last cl) \<and>
      (\<exists>line\<in>set (py_splitlines text). \<exists>ws1 ws2. line = ws1 @ cl @ ws2 \<and>
          list_all py_isspace ws1 \<and> list_all py_isspace ws2)"
    by (rule ballI) (rule candidate_lines_trimmed)
  have 3: "candidate_lines text = pre @ later \<and> length pre = 20 \<longrightarrow>
      guess_candidate_name text =
        (case scan_lines skip_keywords pre of Some r \<Rightarrow> r | None \<Rightarrow> fallback text)"
  proof
    assume "candidate_lines text = pre @ later \<and> length pre = 20"
    then have "take 20 (candidate_lines text) = pre" by simp
    then show "guess_candidate_name text =
        (case scan_lines skip_keywords pre of Some r \<Rightarrow> r | None \<Rightarrow> fallback text)"
      by (simp add: guess_candidate_name_def guess_candidate_name_ord_def)
  qed
  have 4: "candidate_lines text = pre @ later \<and> length pre = 20 \<and>
      list_all (\<lambda>l. \<not> qualifies skip_keywords l) pre \<longrightarrow>
      guess_candidate_name text = fallback text"
  proof
    assume a: "candidate_lines text = pre @ later \<and> length pre = 20 \<and>
      list_all (\<lambda>l. \<not> qualifies skip_keywords l) pre"
    then have "take 20 (candidate_lines text) = pre" by simp
    moreover from a have "scan_lines skip_keywords pre = None"
      by (simp add: scan_lines_None)
    ultimately show "guess_candidate_name text = fallback text"
      by (simp add: guess_of_scan_None)
  qed
  from 1 2 3 4 show ?thesis by (intro conjI)
qed

theorem candidate_lines_window_witness:
  "candidate_lines (''  Jane Doe  '' @ [CHR 0x0A, CHR 0x0A] @ ''   '' @ [CHR 0x0A] @
       replicate 61 (CHR ''x'') @ [CHR 0x0A] @ replicate 60 (CHR ''y''))
     = [''Jane Doe'', replicate 60 (CHR ''y'')] \<and>
   (\<exists>line\<in>set (py_splitlines (''  Jane Doe  '' @ [CHR 0x0A, CHR 0x0A] @ ''   '' @ [CHR 0x0A] @
       replicate 61 (CHR ''x'') @ [CHR 0x0A] @ replicate 60 (CHR ''y''))).
      \<exists>ws1 ws2. line = ws1 @ ''Jane Doe'' @ ws2 \<and>
        list_all py_isspace ws1 \<and> list_all py_isspace ws2) \<and>
   guess_candidate_name (concat (replicate 20 ''x\<newline>'') @ ''John Smith'') = ''X X'' \<and>
   qualifies skip_keywords ''John Smith'' \<and>
   candidate_lines (concat (replicate 20 ''x\<newline>'') @ ''John Smith'') =
     replicate 20 ''x'' @ [''John Smith'']"
proof -
  let ?padded = "''  Jane Doe  '' @ [CHR 0x0A, CHR 0x0A] @ ''   '' @ [CHR 0x0A] @
       replicate 61 (CHR ''x'') @ [CHR 0x0A] @ replicate 60 (CHR ''y'')"
  let ?text = "concat (replicate 20 ''x\<newline>'') @ ''John Smith''"
  have d: "candidate_lines ?padded = [''Jane Doe'', replicate 60 (CHR ''y'')]"
    by code_simp
  then have m: "''Jane Doe'' \<in> set (candidate_lines ?padded)" by simp
  have e: "\<exists>line\<in>set (py_splitlines ?padded).
      \<exists>ws1 ws2. line = ws1 @ ''Jane Doe'' @ ws2 \<and>
        list_all py_isspace ws1 \<and> list_all py_isspace ws2"
    using candidate_lines_window [of ?padded "[]" "[]"] m by blast
  have c: "candidate_lines ?text = replicate 20 ''x'' @ [''John Smith'']"
    by code_simp
  have l: "length (replicate 20 ''x'') = 20" by simp
  have p: "list_all (\<lambda>l. \<not> qualifies skip_keywords l) (replicate 20 ''x'')"
    by code_simp
  have q: "qualifies skip_keywords ''John Smith''" by code_simp
  have f: "fallback ?text = ''X X''"
    by code_simp
  have "guess_candidate_name ?text = fallback ?text"
    using candidate_lines_window [of ?text "replicate 20 ''x''" "[''John Smith'']"] c l p
    by blast
  with f c q d e show ?thesis by simp
qed

lemma py_isspace_newline [simp]: "py_isspace (CHR 0x0A)"
  by (simp add: py_isspace_def)

lemma py_isspace_space [simp]: "py_isspace (CHR '' '')"
  by (simp add: py_isspace_def)

lemma py_islinebreak_isspace: "py_islinebreak c \<Longrightarrow> py_isspace c"
  by (auto simp: py_islinebreak_def py_isspace_def)

lemma py_split_acc_replace_newline:
  "py_split_acc cur (py_replace (CHR 0x0A) '' '' s) = py_split_acc cur s"
  by (induction s arbitrary: cur) (simp_all add: py_replace_def)

lemma alpha_tokens_replace_newline:
  "alpha_tokens (py_replace (CHR 0x0A) '' '' s) = alpha_tokens s"
  by (simp add: alpha_tokens_def py_split_def py_split_acc_replace_newline)

lemma py_split_append_space:
  "py_isspace w \<Longrightarrow> py_split (u @ w # v) = py_split u @ py_split v"
  unfolding py_split_def by (rule py_split_acc_append_space)

lemma py_split_Cons_space: "py_isspace w \<Longrightarrow> py_split (w # v) = py_split v"
  by (simp add: py_split_def)

lemma py_split_all_space: "list_all py_isspace ws \<Longrightarrow> py_split ws = []"
  by (induction ws) (simp_all add: py_split_def)

lemma py_split_append_all_space:
  "list_all py_isspace ws \<Longrightarrow> py_split (a @ ws) = py_split a"
proof (cases ws)
  case Nil
  then show ?thesis by simp
next
  case (Cons w ws')
  assume "list_all py_isspace ws"
  with Cons have "py_isspace w" "list_all py_isspace ws'" by simp_all
  then show ?thesis
    by (simp add: Cons py_split_append_space py_split_all_space)
qed

lemma py_split_dropWhile: "py_split (dropWhile py_isspace s) = py_split s"
  by (induction s) (simp_all add: py_split_Cons_space)

lemma py_split_strip: "py_split (py_strip s) = py_split s"
proof -
  let ?d = "dropWhile py_isspace s"
  have "?d = rev (dropWhile py_isspace (rev ?d)) @ rev (takeWhile py_isspace (rev ?d))"
    by (metis rev_append rev_rev_ident takeWhile_dropWhile_id)
  moreover have "list_all py_isspace (rev (takeWhile py_isspace (rev ?d)))"
    by (simp add: list_all_iff) (meson set_takeWhileD)
  ultimately have "py_split ?d = py_split (rev (dropWhile py_isspace (rev ?d)))"
    using py_split_append_all_space by metis
  then show ?thesis
    by (simp add: py_strip_def py_split_dropWhile)
qed

lemma alpha_tokens_strip: "alpha_tokens (py_strip s) = alpha_tokens s"
  by (simp add: alpha_tokens_def py_split_strip)

lemma py_split_nospace_length:
  "list_all (\<lambda>c. \<not> py_isspace c) s \<Longrightarrow> length (py_split s) \<le> 1"
  by (simp add: py_split_def py_split_acc_nospace list_all_iff)


lemma py_splitlines_acc_tokens:
  "l \<in> set (py_splitlines_acc cur s) \<Longrightarrow> set (py_split l) \<subseteq> set (py_split (cur @ s))"
proof (induction cur s rule: py_splitlines_acc.induct)
  case (1 cur)
  then show ?case by (simp split: if_splits)
next
  case (2 cur c)
  show ?case
  proof (cases "py_islinebreak c")
    case True
    then have "py_split (cur @ [c]) = py_split cur"
      using py_split_append_all_space [of "[c]" cur] by (simp add: py_islinebreak_isspace)
    with 2 True show ?thesis by simp
  next
    case False
    with 2 show ?thesis by simp
  qed
next
  case (3 cur c d cs)
  show ?case
  proof (cases "c = CHR 0x0D \<and> d = CHR 0x0A")
    case True
    then have sp: "py_isspace c" "py_isspace d" by (simp_all add: py_isspace_def)
    have "py_split (cur @ c # d # cs) = py_split cur @ py_split cs"
      using sp by (simp add: py_split_append_space py_split_Cons_space)
    moreover from 3(4) True have "l = cur \<or> l \<in> set (py_splitlines_acc [] cs)" by simp
    moreover have "l \<in> set (py_splitlines_acc [] cs) \<Longrightarrow> set (py_split l) \<subseteq> set (py_split cs)"
      using 3(1) True by simp
    ultimately show ?thesis by auto
  next
    case nocrlf: False
    show ?thesis
    proof (cases "py_islinebreak c")
      case True
      then have "py_isspace c" by (rule py_islinebreak_isspace)
      then have "py_split (cur @ c # d # cs) = py_split cur @ py_split (d # cs)"
        by (rule py_split_append_space)
      moreover from 3(4) nocrlf True
      have "l = cur \<or> l \<in> set (py_splitlines_acc [] (d # cs))" by auto
      moreover have "l \<in> set (py_splitlines_acc [] (d # cs)) \<Longrightarrow>
          set (py_split l) \<subseteq> set (py_split (d # cs))"
        using 3(2) nocrlf True by simp
      ultimately show ?thesis by auto
    next
      case False
      with 3(3,4) nocrlf show ?thesis by simp
    qed
  qed
qed

lemma py_splitlines_tokens:
  "l \<in> set (py_splitlines s) \<Longrightarrow> set (py_split l) \<subseteq> set (py_split s)"
  using py_splitlines_acc_tokens [of l "[]" s] by (simp add: py_splitlines_def)

lemma candidate_lines_tokens:
  assumes "cl \<in> set (candidate_lines text)"
  shows "set (py_split cl) \<subseteq> set (py_split text)"
proof -
  from assms obtain l where "l \<in> set (py_splitlines text)" "cl = py_strip l"
    by (auto simp: candidate_lines_eq candidate_line_sequence_def)
  then show ?thesis
    using py_splitlines_tokens [of l "text"] by (simp add: py_split_strip)
qed

text \<open>Two alphabetic tokens in the tail of a line: the second one is a token of the
  whole line, whatever stands before the tail.\<close>

lemma alpha_tokens_tail:
  assumes "length (alpha_tokens rest) \<ge> 2"
  shows "\<exists>t\<in>set (py_split (pre @ rest)). is_alpha_token t"
proof -
  let ?b1 = "takeWhile (\<lambda>c. \<not> py_isspace c) rest"
  let ?b2 = "dropWhile (\<lambda>c. \<not> py_isspace c) rest"
  have rest: "rest = ?b1 @ ?b2" by simp
  have b1: "list_all (\<lambda>c. \<not> py_isspace c) ?b1"
    by (auto simp: list_all_iff dest: set_takeWhileD)
  show ?thesis
  proof (cases ?b2)
    case Nil
    with rest have "rest = ?b1" by simp
    with b1 have "length (py_split rest) \<le> 1"
      using py_split_nospace_length by metis
    moreover have "length (alpha_tokens rest) \<le> length (py_split rest)"
      by (simp add: alpha_tokens_def)
    ultimately show ?thesis using assms by simp
  next
    case (Cons w v)
    then have w: "py_isspace w"
      using hd_dropWhile [of "\<lambda>c. \<not> py_isspace c" rest] by simp
    from rest Cons have r: "rest = ?b1 @ w # v" by simp
    have "py_split rest = py_split ?b1 @ py_split v"
      using py_split_append_space [OF w, of ?b1 v] r by simp
    then have "length (alpha_tokens rest) =
        length (filter is_alpha_token (py_split ?b1)) + length (filter is_alpha_token (py_split v))"
      by (simp add: alpha_tokens_def)
    moreover have "length (filter is_alpha_token (py_split ?b1)) \<le> 1"
      using py_split_nospace_length [OF b1] length_filter_le [of is_alpha_token "py_split ?b1"]
      by linarith
    ultimately have "filter is_alpha_token (py_split v) \<noteq> []"
      using assms by auto
    then obtain t where t: "t \<in> set (py_split v)" "is_alpha_token t"
      by (auto simp: filter_empty_conv)
    have "pre @ rest = (pre @ ?b1) @ w # v" using r by simp
    then have "py_split (pre @ rest) = py_split (pre @ ?b1) @ py_split v"
      using py_split_append_space [OF w, of "pre @ ?b1" v] by simp
    with t show ?thesis by auto
  qed
qed

lemma qualifies_alpha_token:
  assumes "qualifies ks line"
  shows "\<exists>t\<in>set (py_split line). is_alpha_token t"
proof (cases "CHR '':'' \<in> set line")
  case True
  then obtain label rest where
    l: "line = label @ CHR '':'' # rest" and n: "CHR '':'' \<notin> set label"
    by (auto dest: split_list_first)
  have "normalized_of line = py_strip rest"
    unfolding l by (rule normalized_of_colon [OF n])
  with assms have "length (alpha_tokens rest) \<ge> 2"
    by (simp add: qualifies_def alpha_tokens_strip)
  then show ?thesis
    using alpha_tokens_tail [of rest "label @ [CHR '':'']"] l by simp
next
  case False
  with assms have "length (alpha_tokens line) \<ge> 2"
    by (simp add: qualifies_def normalized_of_def)
  then show ?thesis
    using alpha_tokens_tail [of line "[]"] by simp
qed

lemma no_alpha_tokens_no_guess:
  assumes "alpha_tokens text = []"
  shows "guess_candidate_name text = []"
proof -
  have none: "\<not> qualifies skip_keywords cl" if "cl \<in> set (candidate_lines text)" for cl
  proof
    assume "qualifies skip_keywords cl"
    then obtain t where "t \<in> set (py_split cl)" "is_alpha_token t"
      using qualifies_alpha_token by blast
    with that have "t \<in> set (alpha_tokens text)"
      using candidate_lines_tokens by (auto simp: alpha_tokens_def)
    with assms show False by simp
  qed
  have "list_all (\<lambda>l. \<not> qualifies skip_keywords l) (take 20 (candidate_lines text))"
    using none by (auto simp: list_all_iff dest: in_set_takeD)
  then have "guess_candidate_name text = fallback text"
    by (simp add: guess_of_scan_None scan_lines_None)
  with assms show ?thesis
    by (simp add: fallback_eq alpha_tokens_replace_newline)
qed


text \<open>
  Claim C3. When none of the first 20 candidate lines qualifies, the result comes from
  the whole text with its newlines replaced by spaces: with at least two alphabetic
  tokens there, the first two, capitalized, with a space between; with fewer, the empty
  string. Replacing the newlines does not change the tokens, so these are the
  alphabetic tokens of the text in its order. The empty text, and every text without
  any alphabetic token, gives the empty string.
\<close>

theorem fallback_result:
  "(list_all (\<lambda>l. \<not> qualifies skip_keywords l) (take 20 (candidate_lines text)) \<longrightarrow>
      guess_candidate_name text =
        (if length (alpha_tokens (py_replace (CHR 0x0A) '' '' text)) \<ge> 2
         then capitalize (alpha_tokens (py_replace (CHR 0x0A) '' '' text) ! 0) @ '' '' @
              capitalize (alpha_tokens (py_replace (CHR 0x0A) '' '' text) ! 1)
         else [])) \<and>
   py_split (py_replace (CHR 0x0A) '' '' text) = py_split text \<and>
   guess_candidate_name [] = [] \<and>
   (alpha_tokens text = [] \<longrightarrow> guess_candidate_name text = [])"
proof (intro conjI impI)
  assume "list_all (\<lambda>l. \<not> qualifies skip_keywords l) (take 20 (candidate_lines text))"
  then have "guess_candidate_name text = fallback text"
    by (simp add: guess_of_scan_None scan_lines_None)
  then show "guess_candidate_name text =
        (if length (alpha_tokens (py_replace (CHR 0x0A) '' '' text)) \<ge> 2
         then capitalize (alpha_tokens (py_replace (CHR 0x0A) '' '' text) ! 0) @ '' '' @
              capitalize (alpha_tokens (py_replace (CHR 0x0A) '' '' text) ! 1)
         else [])"
    by (simp only: fallback_eq format_name_def)
next
  show "py_split (py_replace (CHR 0x0A) '' '' text) = py_split text"
    by (simp add: py_split_def py_split_acc_replace_newline)
next
  have "alpha_tokens [] = []" by (simp add: alpha_tokens_def py_split_def)
  then show "guess_candidate_name [] = []" by (rule no_alpha_tokens_no_guess)
next
  assume "alpha_tokens text = []"
  then show "guess_candidate_name text = []" by (rule no_alpha_tokens_no_guess)
qed

theorem fallback_result_witness:
  "guess_candidate_name ''my email here\<newline>Only\<newline>42 to-do LIST!'' = ''My Email'' \<and>
   guess_candidate_name ''12 34\<newline>+1 (555) 010-9999'' = []"
proof -
  let ?t = "''my email here\<newline>Only\<newline>42 to-do LIST!''"
  let ?u = "''12 34\<newline>+1 (555) 010-9999''"
  have n: "list_all (\<lambda>l. \<not> qualifies skip_keywords l) (take 20 (candidate_lines ?t))"
    by code_simp
  have v: "(if length (alpha_tokens (py_replace (CHR 0x0A) '' '' ?t)) \<ge> 2
         then capitalize (alpha_tokens (py_replace (CHR 0x0A) '' '' ?t) ! 0) @ '' '' @
              capitalize (alpha_tokens (py_replace (CHR 0x0A) '' '' ?t) ! 1)
         else []) = ''My Email''"
    by code_simp
  have a: "alpha_tokens ?u = []" by code_simp
  have "guess_candidate_name ?t = ''My Email''"
    using fallback_result [of ?t] n v by simp
  moreover have "guess_candidate_name ?u = []"
    using fallback_result [of ?u] a by blast
  ultimately show ?thesis by simp
qed

lemma hyphens_not_alpha: "set token \<subseteq> {CHR ''-''} \<Longrightarrow> \<not> is_alpha_token token"
  by (auto simp: is_alpha_token_iff)

text \<open>
  Claim C9. A token made of hyphens only is not alphabetic: with the hyphens removed
  nothing is left, and \<^verbatim>\<open>isalpha\<close> of the empty string is false. Both the loop and the
  fallback select their tokens with this test. A text all of whose tokens are runs of
  hyphens has no alphabetic token and gives the empty string.
\<close>

theorem hyphen_only_tokens:
  "(set token \<subseteq> {CHR ''-''} \<longrightarrow> \<not> is_alpha_token token) \<and>
   ((\<forall>t\<in>set (py_split text). set t \<subseteq> {CHR ''-''}) \<longrightarrow>
      alpha_tokens text = [] \<and> guess_candidate_name text = [])"
proof (intro conjI impI)
  assume "set token \<subseteq> {CHR ''-''}"
  then show "\<not> is_alpha_token token" by (rule hyphens_not_alpha)
next
  assume a: "\<forall>t\<in>set (py_split text). set t \<subseteq> {CHR ''-''}"
  then show e: "alpha_tokens text = []"
    by (auto simp: alpha_tokens_def filter_empty_conv dest: hyphens_not_alpha)
  then show "guess_candidate_name text = []" by (rule no_alpha_tokens_no_guess)
qed

theorem hyphen_only_tokens_witness:
  "\<not> is_alpha_token ''---'' \<and>
   py_split ''-- - ---\<newline>- --'' = [''--'', ''-'', ''---'', ''-'', ''--''] \<and>
   guess_candidate_name ''-- - ---\<newline>- --'' = []"
proof -
  have s: "py_split ''-- - ---\<newline>- --'' = [''--'', ''-'', ''---'', ''-'', ''--'']"
    by code_simp
  have h: "set ''---'' \<subseteq> {CHR ''-''}" by simp
  have a: "\<forall>t\<in>set (py_split ''-- - ---\<newline>- --''). set t \<subseteq> {CHR ''-''}"
    unfolding s by simp
  from hyphen_only_tokens [of "''---''" "''-- - ---\<newline>- --''"] h a s
  show ?thesis by blast
qed

end
